theory Spec2Isabelle
  imports Main "HOL-Library.Sublist"
begin

section \<open>Syntax model\<close>

text \<open>
  The session program is a Go syntax tree. Only the parts that \<open>main.go\<close> builds or
  inspects itself are given structure; every other node is kept as the parser returned it,
  as an opaque leaf labelled by its source text.
\<close>

datatype expr =
    Ident string
  | CallExpr expr "expr list"
  | OtherExpr string

datatype tok = ASSIGN

datatype stmt =
    ExprStmt expr
  | AssignStmt "expr list" tok "expr list"
  | OtherStmt string

text \<open>
  An \<open>ast.ImportSpec\<close>: \<open>Name\<close> is the alias (\<open>nil\<close> is \<open>None\<close>), \<open>Path\<close> is the
  \<open>Value\<close> of the path literal, quotes included.
\<close>

record import_spec =
  Name :: "string option"
  Path :: string

text \<open>
  The \<open>ast.File\<close> of the session. The package clause and the helper \<open>p\<close> of
  \<open>initialSource\<close> never change, so the file is its import specs and the statement list of
  \<open>main\<close>. The import specs are shared by \<open>File.Imports\<close> and the import declaration that
  the printer reads, hence one list.
\<close>

record ast_file =
  Imports :: "import_spec list"
  Body :: "stmt list"

text \<open>
  \<open>Session\<close>. The field \<open>mainBody\<close> of the source points into \<open>File\<close> (it is the body of
  \<open>main\<close>), so it is a projection here. \<open>storedBodyLength\<close> only ever holds \<open>0\<close> or a
  \<open>len\<close>, so it is a natural number.
\<close>

record session =
  FilePath :: string
  File :: ast_file
  storedBodyLength :: nat

abbreviation mainBody :: "session \<Rightarrow> stmt list" where
  "mainBody s \<equiv> Body (File s)"

section \<open>Errors and the outside world\<close>

text \<open>
  Go's \<open>error\<close> values, by the dynamic types that \<open>main.go\<close> tells apart:
  \<open>ErrContinue\<close> (the constant of type \<open>Error\<close>), \<open>scanner.ErrorList\<close>, \<open>types.Error\<close>
  with its fields \<open>Msg\<close> and \<open>Soft\<close>, \<open>*exec.ExitError\<close> and anything else.
  The argument of \<open>ExitError\<close> is the exit status when \<open>ProcessState.Sys()\<close> is a
  \<open>syscall.WaitStatus\<close>, and \<open>None\<close> when it is not.
\<close>

datatype error =
    ErrContinue
  | ScannerErrorList string
  | TypesError string bool
  | ExitError "int option"
  | OtherError string

text \<open>
  What one cycle observes of the world: each step that reaches outside the session is
  recorded, in order. \<open>Println\<close> is a line on standard output, \<open>Errorf\<close> a call of
  \<open>errorf\<close> with that error, \<open>Check\<close> is a call of \<open>types.Check\<close> on the file as it is then,
  \<open>FixDeclared\<close> and \<open>FixImported\<close> are the two patches of \<open>quickFixFile\<close> (the places of
  its two \<open>debugf\<close> lines), \<open>Build\<close> is a call of \<open>BuildRunFile\<close>.
\<close>

datatype event =
    Println string
  | Errorf error
  | Check ast_file
  | FixDeclared string
  | FixImported string
  | Build ast_file

text \<open>
  The libraries and the toolchain that the program calls. \<open>parseFile\<close> is
  \<open>parser.ParseFile\<close> on a source text followed by the lookup of the body of \<open>F\<close>, as
  \<open>injectStmt\<close> does it; \<open>fprint\<close> is \<open>printer.Fprint\<close> (an error or the text);
  \<open>execRun\<close> is \<open>cmd.Run()\<close> for \<open>go run\<close> on the path of a file with the given text.
\<close>

record env =
  parseExpr :: "string \<Rightarrow> error + expr"
  parseFile :: "string \<Rightarrow> error + stmt list"
  typesCheck :: "ast_file \<Rightarrow> error option"
  fprint :: "ast_file \<Rightarrow> error + string"
  osCreate :: "string \<Rightarrow> error option"
  execRun :: "string \<Rightarrow> string \<Rightarrow> error option"
  stringsTrimSpace :: "string \<Rightarrow> string"
  strconvQuote :: "string \<Rightarrow> string"
  strconvUnquote :: "string \<Rightarrow> string option"

section \<open>Session creation and the build\<close>

text \<open>
  \<open>initialSource\<close> as parsed: one import, \<open>"fmt"\<close>, without alias, and an empty \<open>main\<close>.
\<close>

definition initialFile :: ast_file where
  "initialFile = \<lparr>Imports = [\<lparr>Name = None, Path = [CHR 0x22] @ ''fmt'' @ [CHR 0x22]\<rparr>], Body = []\<rparr>"

text \<open>
  \<open>NewSession\<close> takes the result of \<open>tempFile\<close> and panics (\<open>None\<close>) when that is an
  error. \<open>storedBodyLength\<close> is not assigned, so it has Go's zero value.
\<close>

definition NewSession :: "error + string \<Rightarrow> session option" where
  "NewSession tmp =
     (case tmp of
        Inl err \<Rightarrow> None
      | Inr p \<Rightarrow> Some \<lparr>FilePath = p, File = initialFile, storedBodyLength = 0\<rparr>)"

definition goRun :: "env \<Rightarrow> string \<Rightarrow> string \<Rightarrow> error option" where
  "goRun e file text = execRun e file text"

definition BuildRunFile :: "env \<Rightarrow> session \<Rightarrow> error option \<times> event list" where
  "BuildRunFile e s =
     (case osCreate e (FilePath s) of
        Some err \<Rightarrow> (Some err, [Build (File s)])
      | None \<Rightarrow>
          (case fprint e (File s) of
             Inl err \<Rightarrow> (Some err, [Build (File s)])
           | Inr text \<Rightarrow> (goRun e (FilePath s) text, [Build (File s)])))"

section \<open>Injection\<close>

definition appendStatements :: "stmt list \<Rightarrow> session \<Rightarrow> session" where
  "appendStatements stmts s = s\<lparr>File := (File s)\<lparr>Body := mainBody s @ stmts\<rparr>\<rparr>"

definition injectExpr :: "env \<Rightarrow> string \<Rightarrow> session \<Rightarrow> error option \<times> session" where
  "injectExpr e inp s =
     (case parseExpr e inp of
        Inl err \<Rightarrow> (Some err, s)
      | Inr x \<Rightarrow> (None, appendStatements [ExprStmt (CallExpr (Ident ''p'') [x])] s))"

definition injectStmt :: "env \<Rightarrow> string \<Rightarrow> session \<Rightarrow> error option \<times> session" where
  "injectStmt e inp s =
     (case parseFile e (''package P; func F() { '' @ inp @ '' }'') of
        Inl err \<Rightarrow> (Some err, s)
      | Inr stmts \<Rightarrow> (None, appendStatements stmts s))"

section \<open>Commands\<close>

text \<open>\<open>strings.Trim(path, `"`)\<close>: the double quotes at both ends are removed.\<close>

definition trimQuotes :: "string \<Rightarrow> string" where
  "trimQuotes p = rev (dropWhile (\<lambda>c. c = CHR 0x22) (rev (dropWhile (\<lambda>c. c = CHR 0x22) p)))"

text \<open>
  \<open>astutil.AddImport\<close> of \<open>golang.org/x/tools\<close>, from its documentation: the import is
  added, without a name, unless the file already imports that path; the path of a spec
  is its literal unquoted, and \<open>""\<close> when that fails.
\<close>

definition importPath :: "env \<Rightarrow> import_spec \<Rightarrow> string" where
  "importPath e imp = (case strconvUnquote e (Path imp) of Some p \<Rightarrow> p | None \<Rightarrow> [])"

definition AddImport :: "env \<Rightarrow> string \<Rightarrow> ast_file \<Rightarrow> ast_file" where
  "AddImport e ipath f =
     (if list_ex (\<lambda>imp. importPath e imp = ipath) (Imports f) then f
      else f\<lparr>Imports := Imports f @ [\<lparr>Name = None, Path = strconvQuote e ipath\<rparr>]\<rparr>)"

definition handleImport :: "env \<Rightarrow> string \<Rightarrow> session \<Rightarrow> bool \<times> session" where
  "handleImport e inp s =
     (if \<not> prefix '':import '' inp then (False, s)
      else (True, s\<lparr>File := AddImport e (trimQuotes (drop (length '':import '') inp)) (File s)\<rparr>))"

definition handlePrint :: "env \<Rightarrow> string \<Rightarrow> session \<Rightarrow> bool \<times> event list" where
  "handlePrint e inp s =
     (if stringsTrimSpace e inp \<noteq> '':print'' then (False, [])
      else (case fprint e (File s) of
              Inr text \<Rightarrow> (True, [Println text])
            | Inl err \<Rightarrow> (True, [Errorf err])))"

section \<open>Auto-fix\<close>

definition maxAttempts :: nat where
  "maxAttempts = 10"

text \<open>The character class \<open>[a-zA-Z0-9_]\<close>.\<close>

definition identChar :: "char \<Rightarrow> bool" where
  "identChar c =
     (c \<in> set ''abcdefghijklmnopqrstuvwxyzABCDEFGHIJKLMNOPQRSTUVWXYZ0123456789_'')"

text \<open>
  \<open>rxDeclaredNotUsed.FindStringSubmatch\<close>, giving the group \<open>m[1]\<close>. The pattern is
  anchored at the start; the character after the group is a space, which is not in the
  class, so the group of a match is the whole leading run of class characters.
\<close>

definition rxDeclaredNotUsed :: "string \<Rightarrow> string option" where
  "rxDeclaredNotUsed msg =
     (let ident = takeWhile identChar msg
      in if ident \<noteq> [] \<and> prefix '' declared but not used'' (dropWhile identChar msg)
         then Some ident else None)"

text \<open>
  \<open>rxImportedNotUsed.FindStringSubmatch\<close>, giving the group \<open>m[1]\<close>, quotes included.
  \<open>dotsThenTail t\<close> is the greedy \<open>.*\<close> followed by the rest of the pattern, on the text
  \<open>t\<close>: the longest run without a newline after which the closing quote and the words
  follow.
\<close>

fun dotsThenTail :: "string \<Rightarrow> string option" where
  "dotsThenTail [] = None"
| "dotsThenTail (c # cs) =
     (case (if c = CHR 0x0A then None else dotsThenTail cs) of
        Some b \<Rightarrow> Some (c # b)
      | None \<Rightarrow>
          if prefix ([CHR 0x22] @ '' imported but not used'') (c # cs) then Some [] else None)"

definition rxImportedNotUsed :: "string \<Rightarrow> string option" where
  "rxImportedNotUsed msg =
     (case msg of
        q # c # cs \<Rightarrow>
          if q = CHR 0x22 \<and> c \<noteq> CHR 0x0A
          then (case dotsThenTail cs of
                  Some b \<Rightarrow> Some ([CHR 0x22] @ c # b @ [CHR 0x22])
                | None \<Rightarrow> None)
          else None
      | _ \<Rightarrow> None)"

text \<open>
  The loop over \<open>s.File.Imports\<close> in \<open>quickFixFile\<close>: the first spec whose path literal
  is \<open>path\<close> becomes anonymous, and the loop breaks.
\<close>

fun markImport :: "string \<Rightarrow> import_spec list \<Rightarrow> import_spec list" where
  "markImport path [] = []"
| "markImport path (imp # imps) =
     (if Path imp = path then imp\<lparr>Name := Some ''_''\<rparr> # imps
      else imp # markImport path imps)"

definition emit :: "event list \<Rightarrow> 'a \<times> session \<times> event list \<Rightarrow> 'a \<times> session \<times> event list" where
  "emit evs r = (case r of (x, s, tr) \<Rightarrow> (x, s, evs @ tr))"

text \<open>The \<open>for\<close> loop of \<open>quickFixFile\<close>, from the value \<open>i\<close> of its counter.\<close>

function quickFixLoop :: "env \<Rightarrow> nat \<Rightarrow> session \<Rightarrow> error option \<times> session \<times> event list" where
  "quickFixLoop e i s =
     (if i < maxAttempts then
        (case typesCheck e (File s) of
           None \<Rightarrow> (None, s, [Check (File s)])
         | Some err \<Rightarrow>
             (case err of
                TypesError msg soft \<Rightarrow>
                  if soft then
                    (case rxDeclaredNotUsed msg of
                       Some ident \<Rightarrow>
                         emit [Check (File s), FixDeclared ident]
                           (quickFixLoop e (i + 1)
                              (appendStatements [AssignStmt [Ident ''_''] ASSIGN [Ident ident]] s))
                     | None \<Rightarrow>
                         (case rxImportedNotUsed msg of
                            Some path \<Rightarrow>
                              emit [Check (File s), FixImported path]
                                (quickFixLoop e (i + 1)
                                   (s\<lparr>File := (File s)\<lparr>Imports := markImport path (Imports (File s))\<rparr>\<rparr>))
                          | None \<Rightarrow> (None, s, [Check (File s)])))
                  else (Some err, s, [Check (File s)])
              | _ \<Rightarrow> (Some err, s, [Check (File s)])))
      else (None, s, []))"
  by pat_completeness auto
termination
  by (relation "measure (\<lambda>(e, i, s). maxAttempts - i)") auto

definition quickFixFile :: "env \<Rightarrow> session \<Rightarrow> error option \<times> session \<times> event list" where
  "quickFixFile e s = quickFixLoop e 0 s"

definition clearQuickFix :: "session \<Rightarrow> session" where
  "clearQuickFix s =
     s\<lparr>File := (File s)\<lparr>Imports := map (\<lambda>imp. imp\<lparr>Name := None\<rparr>) (Imports (File s))\<rparr>\<rparr>"

section \<open>Checkpoint and the Run cycle\<close>

definition RememberCode :: "session \<Rightarrow> session" where
  "RememberCode s = s\<lparr>storedBodyLength := length (mainBody s)\<rparr>"

text \<open>
  \<open>s.mainBody.List[0:s.storedBodyLength]\<close>. A bound above the length either panics
  (above the capacity) or brings back entries that were cut off (within it); both are the
  failure \<open>None\<close>.
\<close>

definition RecallCode :: "session \<Rightarrow> session option" where
  "RecallCode s =
     (if storedBodyLength s \<le> length (mainBody s)
      then Some (s\<lparr>File := (File s)\<lparr>Body := take (storedBodyLength s) (mainBody s)\<rparr>\<rparr>)
      else None)"

text \<open>
  The part of \<open>Run\<close> from the call of \<open>quickFixFile\<close> to its end, which every branch
  reaches that does not return \<open>ErrContinue\<close>. \<open>tr\<close> is what the cycle has printed so
  far. The result of \<open>quickFixFile\<close> is dropped, as in the source.
\<close>

definition Run_build :: "env \<Rightarrow> session \<Rightarrow> event list \<Rightarrow> (error option \<times> session \<times> event list) option" where
  "Run_build e s tr =
     (case quickFixFile e s of
        (fixErr, s1, tr1) \<Rightarrow>
          (case BuildRunFile e s1 of
             (err, tr2) \<Rightarrow>
               (case err of
                  None \<Rightarrow> Some (err, RememberCode s1, tr @ tr1 @ tr2)
                | Some (ExitError sys) \<Rightarrow>
                    (case sys of
                       Some st \<Rightarrow>
                         if st = 2 then
                           (case RecallCode s1 of
                              None \<Rightarrow> None
                            | Some s2 \<Rightarrow> Some (err, s2, tr @ tr1 @ tr2))
                         else Some (err, s1, tr @ tr1 @ tr2)
                     | None \<Rightarrow> Some (err, s1, tr @ tr1 @ tr2))
                | Some _ \<Rightarrow> Some (err, s1, tr @ tr1 @ tr2))))"

text \<open>
  \<open>Run\<close>: the error it returns, the session and the events of the cycle, or \<open>None\<close> when
  it panics. \<open>&&\<close> does not call \<open>handlePrint\<close> once \<open>handleImport\<close> has taken the input.
\<close>

definition Run :: "env \<Rightarrow> string \<Rightarrow> session \<Rightarrow> (error option \<times> session \<times> event list) option" where
  "Run e inp s0 =
     (let s = clearQuickFix s0 in
      case handleImport e inp s of
        (isImport, s1) \<Rightarrow>
          if isImport then Run_build e s1 []
          else
            (case handlePrint e inp s1 of
               (isPrint, tr) \<Rightarrow>
                 if isPrint then Run_build e s1 tr
                 else
                   (case injectExpr e inp s1 of
                      (None, s2) \<Rightarrow> Run_build e s2 []
                    | (Some exprErr, s2) \<Rightarrow>
                        (case injectStmt e inp s2 of
                           (None, s3) \<Rightarrow> Run_build e s3 []
                         | (Some err, s3) \<Rightarrow>
                             (case err of
                                ScannerErrorList m \<Rightarrow> Some (Some ErrContinue, s3, [])
                              | _ \<Rightarrow> Run_build e s3 [])))))"

section \<open>Reading a trace\<close>

fun isCheck :: "event \<Rightarrow> bool" where
  "isCheck (Check f) = True"
| "isCheck _ = False"

fun isFix :: "event \<Rightarrow> bool" where
  "isFix (FixDeclared x) = True"
| "isFix (FixImported p) = True"
| "isFix _ = False"



text \<open>The file of the first call of \<open>types.Check\<close> in a trace, if there is one.\<close>

fun firstCheck :: "event list \<Rightarrow> ast_file option" where
  "firstCheck [] = None"
| "firstCheck (Check f # evs) = Some f"
| "firstCheck (ev # evs) = firstCheck evs"

section \<open>Sessions\<close>

text \<open>
  A session is \<open>NewSession\<close> followed by calls of the exported methods, in any order and
  each with the world as it is at that moment. Next to the session runs the statement list
  as it was at the latest commit, that is at the latest call of \<open>RememberCode\<close>, and \<open>[]\<close>
  before the first. \<open>Run\<close> calls \<open>RememberCode\<close> exactly when it returns \<open>nil\<close>.
\<close>

datatype operation =
    DoRun env string
  | DoRememberCode
  | DoRecallCode
  | DoBuildRunFile env

fun perform :: "operation \<Rightarrow> session \<times> stmt list \<Rightarrow> (session \<times> stmt list) option" where
  "perform (DoRun e inp) (s, c) =
     (case Run e inp s of
        None \<Rightarrow> None
      | Some (err, s', tr) \<Rightarrow> Some (s', if err = None then mainBody s' else c))"
| "perform DoRememberCode (s, c) = Some (RememberCode s, mainBody s)"
| "perform DoRecallCode (s, c) =
     (case RecallCode s of None \<Rightarrow> None | Some s' \<Rightarrow> Some (s', c))"
| "perform (DoBuildRunFile e) (s, c) = Some (s, c)"

fun performAll :: "operation list \<Rightarrow> session \<times> stmt list \<Rightarrow> (session \<times> stmt list) option" where
  "performAll [] sc = Some sc"
| "performAll (x # xs) sc =
     (case perform x sc of None \<Rightarrow> None | Some sc' \<Rightarrow> performAll xs sc')"

definition sessionAfter :: "error + string \<Rightarrow> operation list \<Rightarrow> (session \<times> stmt list) option" where
  "sessionAfter tmp xs =
     (case NewSession tmp of None \<Rightarrow> None | Some s \<Rightarrow> performAll xs (s, []))"

section \<open>A small world for examples\<close>

text \<open>
  A toolchain that knows a handful of inputs: the expressions \<open>1\<close> and \<open>x\<close>, the
  statement \<open>x := 5\<close>, the unused variable \<open>x\<close> and the unused import \<open>"os"\<close>. Every
  other input is a syntax error, reported as a \<open>scanner.ErrorList\<close> as \<open>go/parser\<close> does,
  be it the unfinished \<open>if true {\<close> or the malformed \<open>)\<close>. The printed text lists the
  import paths and the number of statements. \<open>toyEnv r\<close> is the world in which
  \<open>go run\<close> ends with \<open>r\<close>.
\<close>

definition asciiSpace :: "char \<Rightarrow> bool" where
  "asciiSpace c = (c \<in> set [CHR 0x09, CHR 0x0A, CHR 0x0B, CHR 0x0C, CHR 0x0D, CHR 0x20])"

definition toyTrimSpace :: "string \<Rightarrow> string" where
  "toyTrimSpace s = rev (dropWhile asciiSpace (rev (dropWhile asciiSpace s)))"

definition toyQuote :: "string \<Rightarrow> string" where
  "toyQuote p = [CHR 0x22] @ p @ [CHR 0x22]"

definition toyUnquote :: "string \<Rightarrow> string option" where
  "toyUnquote s =
     (case s of
        [] \<Rightarrow> None
      | q # rest \<Rightarrow>
          if q = CHR 0x22 \<and> rest \<noteq> [] \<and> last rest = CHR 0x22 then Some (butlast rest) else None)"

definition toyParseExpr :: "string \<Rightarrow> error + expr" where
  "toyParseExpr inp =
     (if inp = ''1'' then Inr (OtherExpr ''1'')
      else if inp = ''x'' then Inr (Ident ''x'')
      else Inl (ScannerErrorList ''expected operand''))"

definition toyParseFile :: "string \<Rightarrow> error + stmt list" where
  "toyParseFile src =
     (if src = ''package P; func F() { x := 5 }'' then Inr [OtherStmt ''x := 5'']
      else if src = ''package P; func F() { if true { }'' then Inl (ScannerErrorList ''expected }, found EOF'')
      else Inl (ScannerErrorList ''expected statement''))"

definition toyCheck :: "ast_file \<Rightarrow> error option" where
  "toyCheck f =
     (if OtherStmt ''x := 5'' \<in> set (Body f)
         \<and> AssignStmt [Ident ''_''] ASSIGN [Ident ''x''] \<notin> set (Body f)
         \<and> ExprStmt (CallExpr (Ident ''p'') [Ident ''x'']) \<notin> set (Body f)
      then Some (TypesError ''x declared but not used'' True)
      else if list_ex (\<lambda>imp. Path imp = toyQuote ''os'' \<and> Name imp = None) (Imports f)
      then Some (TypesError (toyQuote ''os'' @ '' imported but not used'') True)
      else None)"

definition toyPrint :: "ast_file \<Rightarrow> error + string" where
  "toyPrint f = Inr (concat (map Path (Imports f)) @ replicate (length (Body f)) CHR '';'')"

definition toyEnv :: "error option \<Rightarrow> env" where
  "toyEnv r =
     \<lparr>parseExpr = toyParseExpr, parseFile = toyParseFile, typesCheck = toyCheck,
      fprint = toyPrint, osCreate = (\<lambda>path. None), execRun = (\<lambda>path text. r),
      stringsTrimSpace = toyTrimSpace, strconvQuote = toyQuote, strconvUnquote = toyUnquote\<rparr>"

definition toySession :: session where
  "toySession = \<lparr>FilePath = ''/tmp/gore_session.go'', File = initialFile, storedBodyLength = 0\<rparr>"

section \<open>Classifying inputs and errors\<close>

text \<open>
  An input is a command when \<open>handleImport\<close> or \<open>handlePrint\<close> takes it.
  \<open>isErrorList\<close> is the type assertion \<open>err.(scanner.ErrorList)\<close>, and \<open>wrapStmt\<close> the
  source text that \<open>injectStmt\<close> hands to the parser.
\<close>

definition isCommand :: "env \<Rightarrow> string \<Rightarrow> bool" where
  "isCommand e inp = (prefix '':import '' inp \<or> stringsTrimSpace e inp = '':print'')"

fun isErrorList :: "error \<Rightarrow> bool" where
  "isErrorList (ScannerErrorList m) = True"
| "isErrorList _ = False"

definition wrapStmt :: "string \<Rightarrow> string" where
  "wrapStmt inp = ''package P; func F() { '' @ inp @ '' }''"

text \<open>
  What holds of a session and the statement list of its latest commit between any two
  operations: the checkpoint is within the body, and the committed statements are the
  body up to the checkpoint.
\<close>

definition checkpointOk :: "session \<times> stmt list \<Rightarrow> bool" where
  "checkpointOk sc =
     (case sc of (s, c) \<Rightarrow>
        storedBodyLength s \<le> length (mainBody s) \<and> c = take (storedBodyLength s) (mainBody s))"

text \<open>A short session in the small world: a committed cycle, then one that fails with status 1.\<close>

definition toyHistory :: "operation list" where
  "toyHistory =
     [DoRun (toyEnv None) ''x := 5'', DoRun (toyEnv (Some (ExitError (Some 1)))) ''1'']"

text \<open>A checker that never gives in: whatever the file, \<open>x\<close> is declared but not used.\<close>

definition stubbornEnv :: env where
  "stubbornEnv = (toyEnv None)\<lparr>typesCheck := (\<lambda>f. Some (TypesError ''x declared but not used'' True))\<rparr>"

text \<open>
  \<open>isSoft\<close> is the test \<open>err.(types.Error)\<close> with \<open>err.Soft\<close> of \<open>quickFixFile\<close>, and
  \<open>errMsg\<close> the field \<open>Msg\<close>.
\<close>

fun isSoft :: "error \<Rightarrow> bool" where
  "isSoft (TypesError msg soft) = soft"
| "isSoft _ = False"

fun errMsg :: "error \<Rightarrow> string" where
  "errMsg (TypesError msg soft) = msg"
| "errMsg _ = []"

text \<open>
  Two more checkers: one reports an unused label, which \<open>go/types\<close> classifies soft and
  neither pattern matches; the other reports a hard error. And a session that imports \<open>"os"\<close>.
\<close>

definition labelEnv :: env where
  "labelEnv = (toyEnv None)\<lparr>typesCheck := (\<lambda>f. Some (TypesError ''label L declared but not used'' True))\<rparr>"

definition hardEnv :: env where
  "hardEnv = (toyEnv None)\<lparr>typesCheck := (\<lambda>f. Some (TypesError ''undefined: y'' False))\<rparr>"

definition osSession :: session where
  "osSession = toySession\<lparr>File := (File toySession)\<lparr>Imports := Imports (File toySession) @ [\<lparr>Name = None, Path = toyQuote ''os''\<rparr>]\<rparr>\<rparr>"

text \<open>
  The events of a cycle that returned; a session in which auto-fix has made the import
  \<open>"os"\<close> anonymous; and a world whose statement parser fails with an error that is not
  a \<open>scanner.ErrorList\<close>.
\<close>

definition eventsOf :: "(error option \<times> session \<times> event list) option \<Rightarrow> event list" where
  "eventsOf r = (case r of None \<Rightarrow> [] | Some (err, s, tr) \<Rightarrow> tr)"

definition markedSession :: session where
  "markedSession = toySession\<lparr>File := (File toySession)\<lparr>Imports :=
     [\<lparr>Name = None, Path = toyQuote ''fmt''\<rparr>, \<lparr>Name = Some ''_'', Path = toyQuote ''os''\<rparr>]\<rparr>\<rparr>"

definition brokenEnv :: env where
  "brokenEnv = (toyEnv None)\<lparr>parseFile := (\<lambda>src. Inl (OtherError ''read error''))\<rparr>"

section \<open>The auto-fix loop, pass by pass\<close>

declare quickFixLoop.simps [simp del]

lemma emit_simps [simp]: "emit evs (x, s, tr) = (x, s, evs @ tr)"
  by (simp add: emit_def)

lemma loop_done: "\<not> i < maxAttempts \<Longrightarrow> quickFixLoop e i s = (None, s, [])"
  by (simp add: quickFixLoop.simps [of e i s])

lemma loop_clean:
  "i < maxAttempts \<Longrightarrow> typesCheck e (File s) = None \<Longrightarrow>
   quickFixLoop e i s = (None, s, [Check (File s)])"
  by (simp add: quickFixLoop.simps [of e i s])

lemma loop_hard:
  "i < maxAttempts \<Longrightarrow> typesCheck e (File s) = Some err \<Longrightarrow>
   (\<And>msg. err \<noteq> TypesError msg True) \<Longrightarrow>
   quickFixLoop e i s = (Some err, s, [Check (File s)])"
  by (cases err) (auto simp add: quickFixLoop.simps [of e i s])

lemma loop_declared:
  "i < maxAttempts \<Longrightarrow> typesCheck e (File s) = Some (TypesError msg True) \<Longrightarrow>
   rxDeclaredNotUsed msg = Some ident \<Longrightarrow>
   quickFixLoop e i s =
     emit [Check (File s), FixDeclared ident]
       (quickFixLoop e (i + 1) (appendStatements [AssignStmt [Ident ''_''] ASSIGN [Ident ident]] s))"
  by (simp add: quickFixLoop.simps [of e i s])

lemma loop_imported:
  "i < maxAttempts \<Longrightarrow> typesCheck e (File s) = Some (TypesError msg True) \<Longrightarrow>
   rxDeclaredNotUsed msg = None \<Longrightarrow> rxImportedNotUsed msg = Some path \<Longrightarrow>
   quickFixLoop e i s =
     emit [Check (File s), FixImported path]
       (quickFixLoop e (i + 1) (s\<lparr>File := (File s)\<lparr>Imports := markImport path (Imports (File s))\<rparr>\<rparr>))"
  by (simp add: quickFixLoop.simps [of e i s])

lemma loop_giveup:
  "i < maxAttempts \<Longrightarrow> typesCheck e (File s) = Some (TypesError msg True) \<Longrightarrow>
   rxDeclaredNotUsed msg = None \<Longrightarrow> rxImportedNotUsed msg = None \<Longrightarrow>
   quickFixLoop e i s = (None, s, [Check (File s)])"
  by (simp add: quickFixLoop.simps [of e i s])

text \<open>The six ways one pass of the loop can go.\<close>

lemma loop_cases [case_names finished clean hard declared imported giveup]:
  assumes "\<not> i < maxAttempts \<Longrightarrow> P"
    and "i < maxAttempts \<Longrightarrow> typesCheck e (File s) = None \<Longrightarrow> P"
    and "\<And>err. i < maxAttempts \<Longrightarrow> typesCheck e (File s) = Some err \<Longrightarrow>
           (\<And>msg. err \<noteq> TypesError msg True) \<Longrightarrow> P"
    and "\<And>msg ident. i < maxAttempts \<Longrightarrow> typesCheck e (File s) = Some (TypesError msg True) \<Longrightarrow>
           rxDeclaredNotUsed msg = Some ident \<Longrightarrow> P"
    and "\<And>msg path. i < maxAttempts \<Longrightarrow> typesCheck e (File s) = Some (TypesError msg True) \<Longrightarrow>
           rxDeclaredNotUsed msg = None \<Longrightarrow> rxImportedNotUsed msg = Some path \<Longrightarrow> P"
    and "\<And>msg. i < maxAttempts \<Longrightarrow> typesCheck e (File s) = Some (TypesError msg True) \<Longrightarrow>
           rxDeclaredNotUsed msg = None \<Longrightarrow> rxImportedNotUsed msg = None \<Longrightarrow> P"
  shows P
proof (cases "i < maxAttempts")
  case False
  then show ?thesis by (rule assms(1))
next
  case lt: True
  show ?thesis
  proof (cases "typesCheck e (File s)")
    case None
    with lt show ?thesis by (rule assms(2))
  next
    case (Some err)
    show ?thesis
    proof (cases "\<exists>msg. err = TypesError msg True")
      case False
      with lt Some show ?thesis by (intro assms(3)) auto
    next
      case True
      then obtain msg where err: "err = TypesError msg True" by blast
      show ?thesis
      proof (cases "rxDeclaredNotUsed msg")
        case (Some ident)
        with lt \<open>typesCheck e (File s) = Some err\<close> err show ?thesis
          by (intro assms(4)) auto
      next
        case None
        note nd = this
        show ?thesis
        proof (cases "rxImportedNotUsed msg")
          case (Some path)
          with lt \<open>typesCheck e (File s) = Some err\<close> err nd show ?thesis
            by (intro assms(5)) auto
        next
          case None
          with lt \<open>typesCheck e (File s) = Some err\<close> err nd show ?thesis
            by (intro assms(6)) auto
        qed
      qed
    qed
  qed
qed

lemma quickFixLoop_counts:
  "quickFixLoop e i s = (r, s', tr) \<Longrightarrow>
     length (filter isCheck tr) \<le> maxAttempts - i \<and> length (filter isFix tr) \<le> maxAttempts - i"
proof (induction "maxAttempts - i" arbitrary: i s r s' tr)
  case 0
  then show ?case by (simp add: loop_done)
next
  case (Suc n)
  then have lt: "i < maxAttempts" and n: "n = maxAttempts - (i + 1)" by simp_all
  show ?case
  proof (cases rule: loop_cases [where i=i and e=e and s=s])
    case finished
    with lt show ?thesis by simp
  next
    case clean
    with Suc.prems lt show ?thesis by (auto simp add: loop_clean)
  next
    case (hard err)
    with Suc.prems lt show ?thesis by (auto simp add: loop_hard)
  next
    case (declared msg ident)
    obtain r1 s1 tr1 where rec:
      "quickFixLoop e (i + 1) (appendStatements [AssignStmt [Ident ''_''] ASSIGN [Ident ident]] s) = (r1, s1, tr1)"
      by (cases "quickFixLoop e (i + 1) (appendStatements [AssignStmt [Ident ''_''] ASSIGN [Ident ident]] s)") auto
    from Suc.hyps(1) [OF n rec] Suc.prems lt rec declared show ?thesis
      by (auto simp add: loop_declared)
  next
    case (imported msg path)
    obtain r1 s1 tr1 where rec:
      "quickFixLoop e (i + 1) (s\<lparr>File := (File s)\<lparr>Imports := markImport path (Imports (File s))\<rparr>\<rparr>) = (r1, s1, tr1)"
      by (cases "quickFixLoop e (i + 1) (s\<lparr>File := (File s)\<lparr>Imports := markImport path (Imports (File s))\<rparr>\<rparr>)") auto
    from Suc.hyps(1) [OF n rec] Suc.prems lt rec imported show ?thesis
      by (auto simp add: loop_imported)
  next
    case (giveup msg)
    with Suc.prems lt show ?thesis by (auto simp add: loop_giveup)
  qed
qed

lemma quickFixLoop_preserves:
  assumes step1: "\<And>t ident. Q t \<Longrightarrow> Q (appendStatements [AssignStmt [Ident ''_''] ASSIGN [Ident ident]] t)"
    and step2: "\<And>t path. Q t \<Longrightarrow> Q (t\<lparr>File := (File t)\<lparr>Imports := markImport path (Imports (File t))\<rparr>\<rparr>)"
  shows "Q s \<Longrightarrow> quickFixLoop e i s = (r, s', tr) \<Longrightarrow> Q s'"
proof (induction "maxAttempts - i" arbitrary: i s r s' tr)
  case 0
  then show ?case by (simp add: loop_done)
next
  case (Suc n)
  then have lt: "i < maxAttempts" and n: "n = maxAttempts - (i + 1)" by simp_all
  show ?case
  proof (cases rule: loop_cases [where i=i and e=e and s=s])
    case finished
    with lt show ?thesis by simp
  next
    case clean
    with Suc.prems show ?thesis by (simp add: loop_clean)
  next
    case (hard err)
    with Suc.prems show ?thesis by (simp add: loop_hard)
  next
    case (declared msg ident)
    let ?t = "appendStatements [AssignStmt [Ident ''_''] ASSIGN [Ident ident]] s"
    obtain r1 s1 tr1 where rec: "quickFixLoop e (i + 1) ?t = (r1, s1, tr1)"
      by (cases "quickFixLoop e (i + 1) ?t") auto
    from Suc.prems(2) declared rec have "s' = s1" by (simp add: loop_declared)
    with Suc.hyps(1) [OF n step1 [OF Suc.prems(1)] rec] show ?thesis by simp
  next
    case (imported msg path)
    let ?t = "s\<lparr>File := (File s)\<lparr>Imports := markImport path (Imports (File s))\<rparr>\<rparr>"
    obtain r1 s1 tr1 where rec: "quickFixLoop e (i + 1) ?t = (r1, s1, tr1)"
      by (cases "quickFixLoop e (i + 1) ?t") auto
    from Suc.prems(2) imported rec have "s' = s1" by (simp add: loop_imported)
    with Suc.hyps(1) [OF n step2 [OF Suc.prems(1)] rec] show ?thesis by simp
  next
    case (giveup msg)
    with Suc.prems show ?thesis by (simp add: loop_giveup)
  qed
qed

lemma quickFixFile_shape:
  assumes "quickFixFile e s = (r, s', tr)"
  shows "FilePath s' = FilePath s \<and> storedBodyLength s' = storedBodyLength s
         \<and> prefix (mainBody s) (mainBody s')"
proof -
  let ?Q = "\<lambda>t. FilePath t = FilePath s \<and> storedBodyLength t = storedBodyLength s
         \<and> prefix (mainBody s) (mainBody t)"
  have "?Q s'"
  proof (rule quickFixLoop_preserves [where Q = ?Q and s = s and e = e and i = 0 and r = r and tr = tr])
    show "?Q s" by simp
    show "quickFixLoop e 0 s = (r, s', tr)" using assms by (simp add: quickFixFile_def)
  qed (auto simp add: appendStatements_def)
  then show ?thesis .
qed

lemma BuildRunFile_trace: "snd (BuildRunFile e s) = [Build (File s)]"
  by (simp add: BuildRunFile_def split: option.split sum.split)

text \<open>How the last part of a cycle ends, once auto-fix has left the session \<open>s1\<close>.\<close>

lemma Run_build_outcome:
  assumes qf: "quickFixFile e s = (fr, s1, tr1)"
    and inv: "storedBodyLength s \<le> length (mainBody s)"
  obtains (commit) "Run_build e s pr = Some (None, RememberCode s1, pr @ tr1 @ [Build (File s1)])"
  | (rollback) s2 where "Run_build e s pr = Some (Some (ExitError (Some 2)), s2, pr @ tr1 @ [Build (File s1)])"
      "RecallCode s1 = Some s2"
  | (failed) err where "Run_build e s pr = Some (Some err, s1, pr @ tr1 @ [Build (File s1)])"
      "err \<noteq> ExitError (Some 2)"
proof -
  obtain err where b: "BuildRunFile e s1 = (err, [Build (File s1)])"
    using BuildRunFile_trace [of e s1] by (cases "BuildRunFile e s1") auto
  from quickFixFile_shape [OF qf] inv have "storedBodyLength s1 \<le> length (mainBody s1)"
    by (auto dest: prefix_length_le)
  then obtain s2 where rc: "RecallCode s1 = Some s2" by (simp add: RecallCode_def)
  show thesis
  proof (cases err)
    case None
    with qf b show ?thesis by (intro commit) (simp add: Run_build_def)
  next
    case (Some x)
    show ?thesis
    proof (cases "x = ExitError (Some 2)")
      case True
      with Some qf b rc show ?thesis by (intro rollback [of s2]) (simp_all add: Run_build_def)
    next
      case False
      with Some qf b show ?thesis
        by (intro failed [of x]) (auto simp add: Run_build_def split: error.split option.split)
    qed
  qed
qed



text \<open>The six paths through the first part of \<open>Run\<close>.\<close>

lemma Run_import:
  "prefix '':import '' inp \<Longrightarrow>
   Run e inp s =
     Run_build e ((clearQuickFix s)\<lparr>File := AddImport e (trimQuotes (drop (length '':import '') inp)) (File (clearQuickFix s))\<rparr>) []"
  by (simp add: Run_def handleImport_def Let_def)

lemma Run_print:
  "\<not> prefix '':import '' inp \<Longrightarrow> stringsTrimSpace e inp = '':print'' \<Longrightarrow>
   Run e inp s = Run_build e (clearQuickFix s) (snd (handlePrint e inp (clearQuickFix s)))"
  by (simp add: Run_def handleImport_def handlePrint_def split: sum.split)

lemma Run_expr:
  "\<not> isCommand e inp \<Longrightarrow> parseExpr e inp = Inr x \<Longrightarrow>
   Run e inp s =
     Run_build e (appendStatements [ExprStmt (CallExpr (Ident ''p'') [x])] (clearQuickFix s)) []"
  by (simp add: Run_def isCommand_def handleImport_def handlePrint_def injectExpr_def)

lemma Run_stmt:
  "\<not> isCommand e inp \<Longrightarrow> parseExpr e inp = Inl err \<Longrightarrow> parseFile e (wrapStmt inp) = Inr stmts \<Longrightarrow>
   Run e inp s = Run_build e (appendStatements stmts (clearQuickFix s)) []"
  by (simp add: Run_def isCommand_def wrapStmt_def handleImport_def handlePrint_def injectExpr_def injectStmt_def)

lemma Run_continue:
  "\<not> isCommand e inp \<Longrightarrow> parseExpr e inp = Inl err \<Longrightarrow>
   parseFile e (wrapStmt inp) = Inl err' \<Longrightarrow> isErrorList err' \<Longrightarrow>
   Run e inp s = Some (Some ErrContinue, clearQuickFix s, [])"
  by (cases err')
     (simp_all add: Run_def isCommand_def wrapStmt_def handleImport_def handlePrint_def injectExpr_def injectStmt_def)

lemma Run_other:
  "\<not> isCommand e inp \<Longrightarrow> parseExpr e inp = Inl err \<Longrightarrow>
   parseFile e (wrapStmt inp) = Inl err' \<Longrightarrow> \<not> isErrorList err' \<Longrightarrow>
   Run e inp s = Run_build e (clearQuickFix s) []"
  by (cases err')
     (simp_all add: Run_def isCommand_def wrapStmt_def handleImport_def handlePrint_def injectExpr_def injectStmt_def)

lemma clearQuickFix_fields [simp]:
  "mainBody (clearQuickFix s) = mainBody s"
  "storedBodyLength (clearQuickFix s) = storedBodyLength s"
  "FilePath (clearQuickFix s) = FilePath s"
  by (simp_all add: clearQuickFix_def)

lemma appendStatements_fields [simp]:
  "mainBody (appendStatements stmts s) = mainBody s @ stmts"
  "storedBodyLength (appendStatements stmts s) = storedBodyLength s"
  "FilePath (appendStatements stmts s) = FilePath s"
  "Imports (File (appendStatements stmts s)) = Imports (File s)"
  by (simp_all add: appendStatements_def)

lemma AddImport_Body [simp]: "Body (AddImport e p f) = Body f"
  by (simp add: AddImport_def)

text \<open>The first part of a cycle: either the early return, or a session handed to the build.\<close>

lemma Run_front:
  obtains (continue) "Run e inp s = Some (Some ErrContinue, clearQuickFix s, [])"
  | (build) s1 tr0 inj where "Run e inp s = Run_build e s1 tr0"
      "mainBody s1 = mainBody s @ inj" "storedBodyLength s1 = storedBodyLength s"
      "FilePath s1 = FilePath s"
proof (cases "prefix '':import '' inp")
  case True
  show ?thesis
    by (rule build [OF Run_import [OF True], of "[]"]) simp_all
next
  case ni: False
  show ?thesis
  proof (cases "stringsTrimSpace e inp = '':print''")
    case True
    show ?thesis
      by (rule build [OF Run_print [OF ni True], of "[]"]) simp_all
  next
    case False
    with ni have nc: "\<not> isCommand e inp" by (simp add: isCommand_def)
    show ?thesis
    proof (cases "parseExpr e inp")
      case (Inr x)
      show ?thesis
        by (rule build [OF Run_expr [OF nc Inr]]) simp_all
    next
      case (Inl err)
      note pe = this
      show ?thesis
      proof (cases "parseFile e (wrapStmt inp)")
        case (Inr stmts)
        show ?thesis
          by (rule build [OF Run_stmt [OF nc pe Inr]]) simp_all
      next
        case (Inl err')
        show ?thesis
        proof (cases "isErrorList err'")
          case True
          from Run_continue [OF nc pe Inl True] show ?thesis by (rule continue)
        next
          case False
          from Run_other [OF nc pe Inl False]
          show ?thesis by (rule build [of _ _ "[]"]) simp_all
        qed
      qed
    qed
  qed
qed

text \<open>Every way a cycle can end, from a session whose checkpoint is within the body.\<close>

lemma Run_outcome:
  assumes inv: "storedBodyLength s \<le> length (mainBody s)"
  obtains (continue) "Run e inp s = Some (Some ErrContinue, clearQuickFix s, [])"
  | (commit) s' pre added where "Run e inp s = Some (None, s', pre @ [Build (File s')])"
      "mainBody s' = mainBody s @ added" "storedBodyLength s' = length (mainBody s')"
  | (rollback) s' tr where "Run e inp s = Some (Some (ExitError (Some 2)), s', tr)"
      "mainBody s' = take (storedBodyLength s) (mainBody s)"
      "storedBodyLength s' = storedBodyLength s"
  | (failed) err s' pre added where "Run e inp s = Some (Some err, s', pre @ [Build (File s')])"
      "err \<noteq> ExitError (Some 2)" "mainBody s' = mainBody s @ added"
      "storedBodyLength s' = storedBodyLength s"
proof (cases rule: Run_front [where e=e and inp=inp and s=s])
  case continue
  then show ?thesis by (rule that(1))
next
  case (build s1 tr0 inj)
  obtain fr s2 tr1 where qf: "quickFixFile e s1 = (fr, s2, tr1)"
    by (cases "quickFixFile e s1") auto
  from quickFixFile_shape [OF qf] obtain patches where
    s2: "mainBody s2 = mainBody s1 @ patches" "storedBodyLength s2 = storedBodyLength s1"
    by (auto simp add: prefix_def)
  from build inv have inv1: "storedBodyLength s1 \<le> length (mainBody s1)" by simp
  from qf inv1 show ?thesis
  proof (cases rule: Run_build_outcome [where pr = tr0])
    case commit
    have "Run e inp s = Some (None, RememberCode s2, (tr0 @ tr1) @ [Build (File (RememberCode s2))])"
      using build(1) commit by (simp add: RememberCode_def)
    then show ?thesis
      by (rule that(2) [where added = "inj @ patches"]) (simp_all add: RememberCode_def s2 build)
  next
    case (rollback s3)
    from rollback(2) have b: "mainBody s3 = take (storedBodyLength s) (mainBody s)"
      and c: "storedBodyLength s3 = storedBodyLength s"
      using s2 build inv by (auto simp add: RecallCode_def split: if_splits)
    have "Run e inp s = Some (Some (ExitError (Some 2)), s3, tr0 @ tr1 @ [Build (File s2)])"
      using rollback(1) build(1) by simp
    from this b c show ?thesis by (rule that(3))
  next
    case (failed err)
    have "Run e inp s = Some (Some err, s2, (tr0 @ tr1) @ [Build (File s2)])"
      using build(1) failed(1) by simp
    then show ?thesis
      by (rule that(4) [where added = "inj @ patches"]) (simp_all add: failed s2 build)
  qed
qed

section \<open>Sessions keep the checkpoint within the body\<close>

lemma perform_ok:
  assumes "checkpointOk sc"
  shows "\<exists>sc'. perform x sc = Some sc' \<and> checkpointOk sc'"
proof -
  obtain s c where sc: "sc = (s, c)" by (cases sc)
  with assms have inv: "storedBodyLength s \<le> length (mainBody s)"
    and c: "c = take (storedBodyLength s) (mainBody s)"
    by (simp_all add: checkpointOk_def)
  show ?thesis
  proof (cases x)
    case (DoRun e inp)
    from inv show ?thesis
    proof (cases rule: Run_outcome [where e = e and inp = inp])
      case continue
      with DoRun sc inv c show ?thesis by (simp add: checkpointOk_def)
    next
      case (commit s' pre added)
      with DoRun sc show ?thesis by (simp add: checkpointOk_def)
    next
      case (rollback s' tr)
      with DoRun sc inv c show ?thesis by (simp add: checkpointOk_def)
    next
      case (failed err s' pre added)
      with DoRun sc inv c show ?thesis by (simp add: checkpointOk_def)
    qed
  next
    case DoRememberCode
    with sc show ?thesis by (simp add: checkpointOk_def RememberCode_def)
  next
    case DoRecallCode
    with sc inv c show ?thesis by (simp add: checkpointOk_def RecallCode_def)
  next
    case (DoBuildRunFile e)
    with sc assms show ?thesis by simp
  qed
qed

lemma performAll_ok:
  "checkpointOk sc \<Longrightarrow> \<exists>sc'. performAll xs sc = Some sc' \<and> checkpointOk sc'"
proof (induction xs arbitrary: sc)
  case Nil
  then show ?case by simp
next
  case (Cons x xs)
  from perform_ok [OF Cons.prems, of x] obtain sc1 where
    "perform x sc = Some sc1" "checkpointOk sc1" by blast
  with Cons.IH [of sc1] show ?case by simp
qed

lemma sessionAfter_ok:
  "\<exists>s c. sessionAfter (Inr p) xs = Some (s, c) \<and> checkpointOk (s, c)"
proof -
  have "checkpointOk (\<lparr>FilePath = p, File = initialFile, storedBodyLength = 0\<rparr>, [])"
    by (simp add: checkpointOk_def)
  from performAll_ok [OF this, of xs] show ?thesis
    by (auto simp add: sessionAfter_def NewSession_def)
qed



section \<open>Rollback and commit\<close>





text \<open>
  C10. Whatever operations follow \<open>NewSession\<close>, none of them panics, and in the session
  they reach the checkpoint is at most the length of the body; the statements up to the
  checkpoint are those of the latest commit. So \<open>RecallCode\<close> slices within bounds and
  returns exactly the committed statements, and a further \<open>Run\<close> cycle returns.
\<close>

theorem checkpoint_within_body:
  "\<exists>s c. sessionAfter (Inr p) xs = Some (s, c)
     \<and> storedBodyLength s \<le> length (mainBody s)
     \<and> c = take (storedBodyLength s) (mainBody s)
     \<and> (\<exists>s'. RecallCode s = Some s' \<and> mainBody s' = c)
     \<and> (\<exists>r. Run e inp s = Some r)"
proof -
  from sessionAfter_ok [of p xs] obtain s c where
    sa: "sessionAfter (Inr p) xs = Some (s, c)" and ok: "checkpointOk (s, c)" by blast
  from ok have inv: "storedBodyLength s \<le> length (mainBody s)"
    and c: "c = take (storedBodyLength s) (mainBody s)"
    by (simp_all add: checkpointOk_def)
  from inv c have "\<exists>s'. RecallCode s = Some s' \<and> mainBody s' = c"
    by (simp add: RecallCode_def)
  moreover from perform_ok [OF ok, of "DoRun e inp"] have "\<exists>r. Run e inp s = Some r"
    by (auto split: option.splits)
  ultimately show ?thesis using sa inv c by blast
qed

theorem checkpoint_within_body_witness:
  "\<exists>s c s'. sessionAfter (Inr ''/tmp/gore_session.go'') (toyHistory @ [DoRecallCode, DoRun (toyEnv None) ''1'']) = Some (s, c)
     \<and> storedBodyLength s \<le> length (mainBody s)
     \<and> RecallCode s = Some s' \<and> mainBody s' = c \<and> length c = 3"
proof -
  from checkpoint_within_body [of "''/tmp/gore_session.go''" "toyHistory @ [DoRecallCode, DoRun (toyEnv None) ''1'']"]
  obtain s c s' where a: "sessionAfter (Inr ''/tmp/gore_session.go'') (toyHistory @ [DoRecallCode, DoRun (toyEnv None) ''1'']) = Some (s, c)"
     "storedBodyLength s \<le> length (mainBody s)" "RecallCode s = Some s'" "mainBody s' = c"
    by blast
  have "map_option (length \<circ> snd) (sessionAfter (Inr ''/tmp/gore_session.go'') (toyHistory @ [DoRecallCode, DoRun (toyEnv None) ''1''])) = Some 3"
    by code_simp
  with a show ?thesis by auto
qed

section \<open>The bound of the auto-fix loop\<close>

text \<open>
  C5. \<open>quickFixFile\<close> is a total function: the loop ends for every checker. In one call
  the checker runs at most 10 times and at most 10 patches are applied.
\<close>

theorem quickFixFile_bounded:
  "length (filter isCheck (snd (snd (quickFixFile e s)))) \<le> 10
   \<and> length (filter isFix (snd (snd (quickFixFile e s)))) \<le> 10"
proof -
  obtain r s' tr where q: "quickFixLoop e 0 s = (r, s', tr)"
    by (cases "quickFixLoop e 0 s") auto
  from quickFixLoop_counts [OF q] q show ?thesis
    by (simp add: quickFixFile_def maxAttempts_def)
qed

theorem quickFixFile_bounded_witness:
  "length (filter isCheck (snd (snd (quickFixFile stubbornEnv toySession)))) = 10
   \<and> length (filter isFix (snd (snd (quickFixFile stubbornEnv toySession)))) = 10
   \<and> fst (quickFixFile stubbornEnv toySession) = None
   \<and> length (mainBody (fst (snd (quickFixFile stubbornEnv toySession)))) = 10"
proof -
  have "10 \<le> length (filter isCheck (snd (snd (quickFixFile stubbornEnv toySession))))"
    "10 \<le> length (filter isFix (snd (snd (quickFixFile stubbornEnv toySession))))"
    "fst (quickFixFile stubbornEnv toySession) = None"
    "length (mainBody (fst (snd (quickFixFile stubbornEnv toySession)))) = 10"
    by code_simp+
  with quickFixFile_bounded [of stubbornEnv toySession] show ?thesis by simp
qed

section \<open>The two message patterns\<close>

text \<open>
  The two functions agree with the regular expressions: a message that has the form
  matches with the expected group, and a match has the form.
\<close>

lemma rxDeclaredNotUsed_matches:
  assumes "x \<noteq> []" and "\<And>c. c \<in> set x \<Longrightarrow> identChar c"
  shows "rxDeclaredNotUsed (x @ '' declared but not used'' @ rest) = Some x"
proof -
  have sp: "\<not> identChar CHR '' ''" by (simp add: identChar_def)
  have "takeWhile identChar (x @ '' declared but not used'' @ rest) = x"
    using assms(2) sp by (simp add: takeWhile_append2 [of x identChar] )
  moreover have "dropWhile identChar (x @ '' declared but not used'' @ rest) = '' declared but not used'' @ rest"
    using assms(2) sp by (simp add: dropWhile_append2 [of x identChar])
  ultimately show ?thesis using assms(1) by (simp add: rxDeclaredNotUsed_def)
qed

lemma rxDeclaredNotUsed_sound:
  assumes "rxDeclaredNotUsed msg = Some x"
  shows "x \<noteq> [] \<and> (\<forall>c\<in>set x. identChar c) \<and> (\<exists>rest. msg = x @ '' declared but not used'' @ rest)"
proof -
  from assms have x: "x = takeWhile identChar msg" and ne: "x \<noteq> []"
    and pr: "prefix '' declared but not used'' (dropWhile identChar msg)"
    by (auto simp add: rxDeclaredNotUsed_def Let_def split: if_splits)
  from pr obtain rest where "dropWhile identChar msg = '' declared but not used'' @ rest"
    by (auto simp add: prefix_def)
  with x have "msg = x @ '' declared but not used'' @ rest"
    using takeWhile_dropWhile_id [of identChar msg] by simp
  moreover from x have "\<forall>c\<in>set x. identChar c" by (auto dest: set_takeWhileD)
  ultimately show ?thesis using ne by blast
qed

lemma dotsThenTail_sound:
  "dotsThenTail t = Some b \<Longrightarrow>
     CHR 0x0A \<notin> set b \<and> (\<exists>rest. t = b @ [CHR 0x22] @ '' imported but not used'' @ rest)"
proof (induction t arbitrary: b)
  case Nil
  then show ?case by simp
next
  case (Cons c cs)
  show ?case
  proof (cases "if c = CHR 0x0A then None else dotsThenTail cs")
    case None
    with Cons.prems have "prefix ([CHR 0x22] @ '' imported but not used'') (c # cs)" and "b = []"
      by (auto split: if_splits)
    then show ?thesis by (auto simp add: prefix_def)
  next
    case (Some b')
    then have nl: "c \<noteq> CHR 0x0A" and d: "dotsThenTail cs = Some b'" by (auto split: if_splits)
    from Some Cons.prems have b: "b = c # b'" by simp
    from Cons.IH [OF d] nl b show ?thesis by auto
  qed
qed

lemma rxImportedNotUsed_sound:
  assumes "rxImportedNotUsed msg = Some p"
  shows "\<exists>b rest. p = [CHR 0x22] @ b @ [CHR 0x22] \<and> b \<noteq> [] \<and> CHR 0x0A \<notin> set b
           \<and> msg = p @ '' imported but not used'' @ rest"
proof -
  from assms obtain c cs b' where msg: "msg = CHR 0x22 # c # cs" and nl: "c \<noteq> CHR 0x0A"
    and d: "dotsThenTail cs = Some b'" and p: "p = [CHR 0x22] @ c # b' @ [CHR 0x22]"
    by (auto simp add: rxImportedNotUsed_def split: list.splits if_splits option.splits)
  from dotsThenTail_sound [OF d] obtain rest where
    "CHR 0x0A \<notin> set b'" "cs = b' @ [CHR 0x22] @ '' imported but not used'' @ rest" by blast
  with msg nl p show ?thesis by (intro exI [of _ "c # b'"] exI [of _ rest]) simp
qed

lemma dotsThenTail_no_quote: "CHR 0x22 \<notin> set t \<Longrightarrow> dotsThenTail t = None"
  by (induction t) (auto simp add: prefix_def)

lemma dotsThenTail_matches:
  assumes "CHR 0x0A \<notin> set b" and "CHR 0x22 \<notin> set rest"
  shows "dotsThenTail (b @ [CHR 0x22] @ '' imported but not used'' @ rest) = Some b"
  using assms(1)
proof (induction b)
  case Nil
  have "dotsThenTail ('' imported but not used'' @ rest) = None"
    using assms(2) by (intro dotsThenTail_no_quote) simp
  then show ?case by simp
next
  case (Cons c b)
  then show ?case by auto
qed

lemma rxImportedNotUsed_matches:
  assumes "b \<noteq> []" and "CHR 0x0A \<notin> set b" and "CHR 0x22 \<notin> set rest"
  shows "rxImportedNotUsed ([CHR 0x22] @ b @ [CHR 0x22] @ '' imported but not used'' @ rest)
           = Some ([CHR 0x22] @ b @ [CHR 0x22])"
proof -
  from assms(1) obtain c b' where b: "b = c # b'" by (cases b) auto
  with assms(2) have "c \<noteq> CHR 0x0A" "CHR 0x0A \<notin> set b'" by auto
  with dotsThenTail_matches [OF this(2) assms(3)] b show ?thesis
    by (simp add: rxImportedNotUsed_def)
qed

lemma rx_disjoint: "rxImportedNotUsed msg = Some p \<Longrightarrow> rxDeclaredNotUsed msg = None"
  by (auto simp add: rxImportedNotUsed_def rxDeclaredNotUsed_def identChar_def
      split: list.splits if_splits)

lemma markImport_distinct:
  "distinct (map Path imps) \<Longrightarrow>
   markImport p imps = map (\<lambda>imp. if Path imp = p then imp\<lparr>Name := Some ''_''\<rparr> else imp) imps"
proof (induction imps)
  case Nil
  then show ?case by simp
next
  case (Cons imp imps)
  show ?case
  proof (cases "Path imp = p")
    case True
    with Cons.prems have "p \<notin> Path ` set imps" by simp
    then have "\<forall>j\<in>set imps. Path j \<noteq> p" by blast
    then have "map (\<lambda>imp. if Path imp = p then imp\<lparr>Name := Some ''_''\<rparr> else imp) imps = imps"
      by (induction imps) auto
    with True show ?thesis by simp
  next
    case False
    with Cons show ?thesis by simp
  qed
qed

section \<open>What auto-fix does with a diagnostic\<close>

text \<open>
  C6, as the code has it. At any pass of the loop, when the checker's error is not a soft
  \<open>types.Error\<close>, the loop ends at once, with the session as it is, and returns that
  error. When it is soft and neither pattern matches, the loop also ends at once with the
  session as it is, but returns \<open>nil\<close>.
\<close>

theorem quickFix_stops:
  assumes "i < maxAttempts" and "typesCheck e (File s) = Some err"
  shows "(\<not> isSoft err \<longrightarrow> quickFixLoop e i s = (Some err, s, [Check (File s)]))
    \<and> (isSoft err \<and> rxDeclaredNotUsed (errMsg err) = None \<and> rxImportedNotUsed (errMsg err) = None \<longrightarrow>
          quickFixLoop e i s = (None, s, [Check (File s)]))"
proof (cases "isSoft err")
  case False
  then have "\<And>msg. err \<noteq> TypesError msg True" by auto
  from loop_hard [OF assms this] False show ?thesis by simp
next
  case True
  then obtain msg where err: "err = TypesError msg True" by (cases err) auto
  with assms loop_giveup [of i e s msg] show ?thesis by simp
qed

theorem quickFix_stops_witness:
  "quickFixFile hardEnv toySession = (Some (TypesError ''undefined: y'' False), toySession, [Check (File toySession)])
   \<and> quickFixFile labelEnv toySession = (None, toySession, [Check (File toySession)])"
proof -
  have a: "(0::nat) < maxAttempts" by (simp add: maxAttempts_def)
  have h: "typesCheck hardEnv (File toySession) = Some (TypesError ''undefined: y'' False)"
    by (simp add: hardEnv_def)
  have l: "typesCheck labelEnv (File toySession) = Some (TypesError ''label L declared but not used'' True)"
    by (simp add: labelEnv_def)
  have m: "rxDeclaredNotUsed ''label L declared but not used'' = None"
    "rxImportedNotUsed ''label L declared but not used'' = None"
    by code_simp+
  from quickFix_stops [OF a h] quickFix_stops [OF a l] m show ?thesis
    by (simp add: quickFixFile_def)
qed

text \<open>
  C6 as stated fails for a soft diagnostic that matches neither pattern: for the unused
  label, \<open>quickFixFile\<close> returns \<open>nil\<close>, not the diagnostic.
\<close>

theorem quickFix_soft_unmatched_counterexample:
  "typesCheck labelEnv (File toySession) = Some (TypesError ''label L declared but not used'' True)
   \<and> rxDeclaredNotUsed ''label L declared but not used'' = None
   \<and> rxImportedNotUsed ''label L declared but not used'' = None
   \<and> fst (quickFixFile labelEnv toySession) = None"
proof -
  have "typesCheck labelEnv (File toySession) = Some (TypesError ''label L declared but not used'' True)"
    by (simp add: labelEnv_def)
  moreover have "rxDeclaredNotUsed ''label L declared but not used'' = None"
    "rxImportedNotUsed ''label L declared but not used'' = None"
    "fst (quickFixFile labelEnv toySession) = None"
    by code_simp+
  ultimately show ?thesis by simp
qed

text \<open>
  C7. At any pass of the loop with a soft diagnostic: if the message matches the
  unused-variable pattern with identifier \<open>x\<close>, the pass appends the one statement
  \<open>_ = x\<close> to the end of the body and the loop goes on; if it matches the unused-import
  pattern with path \<open>p\<close> (the import paths being distinct), the pass gives the import
  spec with path \<open>p\<close> the name \<open>_\<close>, leaves every other spec and the body as they are,
  and the loop goes on.
\<close>

theorem quickFix_patches:
  assumes "i < maxAttempts" and "typesCheck e (File s) = Some (TypesError msg True)"
  shows "(rxDeclaredNotUsed msg = Some x \<longrightarrow>
            quickFixLoop e i s =
              emit [Check (File s), FixDeclared x]
                (quickFixLoop e (i + 1)
                   (s\<lparr>File := (File s)\<lparr>Body := mainBody s @ [AssignStmt [Ident ''_''] ASSIGN [Ident x]]\<rparr>\<rparr>)))
    \<and> (rxImportedNotUsed msg = Some p \<and> distinct (map Path (Imports (File s))) \<longrightarrow>
            quickFixLoop e i s =
              emit [Check (File s), FixImported p]
                (quickFixLoop e (i + 1)
                   (s\<lparr>File := (File s)\<lparr>Imports :=
                      map (\<lambda>imp. if Path imp = p then imp\<lparr>Name := Some ''_''\<rparr> else imp) (Imports (File s))\<rparr>\<rparr>)))"
proof (intro conjI impI)
  assume "rxDeclaredNotUsed msg = Some x"
  from loop_declared [OF assms this] show "quickFixLoop e i s =
              emit [Check (File s), FixDeclared x]
                (quickFixLoop e (i + 1)
                   (s\<lparr>File := (File s)\<lparr>Body := mainBody s @ [AssignStmt [Ident ''_''] ASSIGN [Ident x]]\<rparr>\<rparr>))"
    by (simp add: appendStatements_def)
next
  assume a: "rxImportedNotUsed msg = Some p \<and> distinct (map Path (Imports (File s)))"
  then have "rxDeclaredNotUsed msg = None" by (simp add: rx_disjoint)
  from loop_imported [OF assms this] a show "quickFixLoop e i s =
              emit [Check (File s), FixImported p]
                (quickFixLoop e (i + 1)
                   (s\<lparr>File := (File s)\<lparr>Imports :=
                      map (\<lambda>imp. if Path imp = p then imp\<lparr>Name := Some ''_''\<rparr> else imp) (Imports (File s))\<rparr>\<rparr>))"
    by (simp add: markImport_distinct)
qed

theorem quickFix_patches_witness:
  "quickFixFile (toyEnv None) (appendStatements [OtherStmt ''x := 5''] toySession)
     = (None,
        appendStatements [OtherStmt ''x := 5'', AssignStmt [Ident ''_''] ASSIGN [Ident ''x'']] toySession,
        [Check (File (appendStatements [OtherStmt ''x := 5''] toySession)), FixDeclared ''x'',
         Check (File (appendStatements [OtherStmt ''x := 5'', AssignStmt [Ident ''_''] ASSIGN [Ident ''x'']] toySession))])
   \<and> fst (snd (quickFixFile (toyEnv None) osSession))
     = toySession\<lparr>File := (File toySession)\<lparr>Imports :=
          [\<lparr>Name = None, Path = toyQuote ''fmt''\<rparr>, \<lparr>Name = Some ''_'', Path = toyQuote ''os''\<rparr>]\<rparr>\<rparr>"
proof -
  let ?s = "appendStatements [OtherStmt ''x := 5''] toySession"
  let ?s' = "appendStatements [OtherStmt ''x := 5'', AssignStmt [Ident ''_''] ASSIGN [Ident ''x'']] toySession"
  have a: "(0::nat) < maxAttempts" by (simp add: maxAttempts_def)
  have c: "typesCheck (toyEnv None) (File ?s) = Some (TypesError ''x declared but not used'' True)"
    by (simp add: toyEnv_def toyCheck_def appendStatements_def toySession_def initialFile_def)
  have m: "rxDeclaredNotUsed ''x declared but not used'' = Some ''x''" by code_simp
  have s': "?s\<lparr>File := (File ?s)\<lparr>Body := mainBody ?s @ [AssignStmt [Ident ''_''] ASSIGN [Ident ''x'']]\<rparr>\<rparr> = ?s'"
    by (simp add: appendStatements_def)
  have n: "quickFixLoop (toyEnv None) (0 + 1) ?s' = (None, ?s', [Check (File ?s')])"
    by (rule loop_clean) (simp_all add: maxAttempts_def toyEnv_def toyCheck_def appendStatements_def toySession_def initialFile_def toyQuote_def)
  from quickFix_patches [OF a c, of "''x''"] m s' n
  have 1: "quickFixFile (toyEnv None) ?s = (None, ?s', [Check (File ?s), FixDeclared ''x'', Check (File ?s')])"
    by (simp add: quickFixFile_def appendStatements_def)
  let ?msg = "toyQuote ''os'' @ '' imported but not used''"
  let ?t = "toySession\<lparr>File := (File toySession)\<lparr>Imports :=
          [\<lparr>Name = None, Path = toyQuote ''fmt''\<rparr>, \<lparr>Name = Some ''_'', Path = toyQuote ''os''\<rparr>]\<rparr>\<rparr>"
  have c2: "typesCheck (toyEnv None) (File osSession) = Some (TypesError ?msg True)"
    by (simp add: toyEnv_def toyCheck_def osSession_def toySession_def initialFile_def)
  have m2: "rxImportedNotUsed ?msg = Some (toyQuote ''os'')" by code_simp
  have d: "distinct (map Path (Imports (File osSession)))"
    by (simp add: osSession_def toySession_def initialFile_def toyQuote_def)
  have t: "osSession\<lparr>File := (File osSession)\<lparr>Imports :=
                      map (\<lambda>imp. if Path imp = toyQuote ''os'' then imp\<lparr>Name := Some ''_''\<rparr> else imp) (Imports (File osSession))\<rparr>\<rparr> = ?t"
    by (simp add: osSession_def toySession_def initialFile_def toyQuote_def)
  have n2: "quickFixLoop (toyEnv None) (0 + 1) ?t = (None, ?t, [Check (File ?t)])"
    by (rule loop_clean) (simp_all add: maxAttempts_def toyEnv_def toyCheck_def toySession_def initialFile_def toyQuote_def)
  from quickFix_patches [OF a c2, of _ "toyQuote ''os''"] m2 d t n2
  have 2: "fst (snd (quickFixFile (toyEnv None) osSession)) = ?t"
    by (simp add: quickFixFile_def)
  from 1 2 show ?thesis by simp
qed

section \<open>What a cycle depends on, and what the checker sees first\<close>

lemma quickFixLoop_env:
  assumes "typesCheck e' = typesCheck e"
  shows "quickFixLoop e' i s = quickFixLoop e i s"
proof (induction "maxAttempts - i" arbitrary: i s)
  case 0
  then show ?case by (simp add: loop_done)
next
  case (Suc n)
  then have lt: "i < maxAttempts" and n: "n = maxAttempts - (i + 1)" by simp_all
  show ?case
  proof (cases rule: loop_cases [where i=i and e=e and s=s])
    case finished
    with lt show ?thesis by simp
  next
    case clean
    with assms show ?thesis by (simp add: loop_clean)
  next
    case (hard err)
    from loop_hard [OF hard] loop_hard [of i e' s err] hard assms show ?thesis by simp
  next
    case (declared msg ident)
    from loop_declared [OF declared] loop_declared [of i e' s msg ident] declared assms
      Suc.hyps(1) [OF n]
    show ?thesis by simp
  next
    case (imported msg path)
    from loop_imported [OF imported] loop_imported [of i e' s msg path] imported assms
      Suc.hyps(1) [OF n]
    show ?thesis by simp
  next
    case (giveup msg)
    from loop_giveup [OF giveup] loop_giveup [of i e' s msg] giveup assms show ?thesis by simp
  qed
qed

lemma BuildRunFile_env:
  assumes "fprint e' = fprint e" "osCreate e' = osCreate e" "execRun e' = execRun e"
  shows "BuildRunFile e' s = BuildRunFile e s"
  using assms by (simp add: BuildRunFile_def goRun_def split: option.split sum.split)

lemma Run_build_env:
  assumes "typesCheck e' = typesCheck e" "fprint e' = fprint e" "osCreate e' = osCreate e"
    "execRun e' = execRun e"
  shows "Run_build e' s tr = Run_build e s tr"
proof -
  obtain fr s1 tr1 where q: "quickFixFile e s = (fr, s1, tr1)"
    by (cases "quickFixFile e s") auto
  with quickFixLoop_env [OF assms(1)] have q': "quickFixFile e' s = (fr, s1, tr1)"
    by (simp add: quickFixFile_def)
  from q q' BuildRunFile_env [OF assms(2-4), of s1] show ?thesis
    by (simp add: Run_build_def)
qed

lemma firstCheck_append: "filter isCheck xs = [] \<Longrightarrow> firstCheck (xs @ ys) = firstCheck ys"
proof (induction xs)
  case Nil
  then show ?case by simp
next
  case (Cons x xs)
  then show ?case by (cases x) (simp_all split: if_splits)
qed

lemma quickFixFile_first: "\<exists>r s' rest. quickFixFile e s = (r, s', Check (File s) # rest)"
proof -
  have lt: "0 < maxAttempts" by (simp add: maxAttempts_def)
  show ?thesis
  proof (cases rule: loop_cases [where i=0 and e=e and s=s])
    case finished
    with lt show ?thesis by simp
  next
    case clean
    then show ?thesis by (simp add: quickFixFile_def loop_clean)
  next
    case (hard err)
    from loop_hard [OF hard] show ?thesis by (simp add: quickFixFile_def)
  next
    case (declared msg ident)
    from loop_declared [OF declared] show ?thesis
      by (cases "quickFixLoop e (0 + 1) (appendStatements [AssignStmt [Ident ''_''] ASSIGN [Ident ident]] s)")
         (simp add: quickFixFile_def)
  next
    case (imported msg path)
    from loop_imported [OF imported] show ?thesis
      by (cases "quickFixLoop e (0 + 1) (s\<lparr>File := (File s)\<lparr>Imports := markImport path (Imports (File s))\<rparr>\<rparr>)")
         (simp add: quickFixFile_def)
  next
    case (giveup msg)
    from loop_giveup [OF giveup] show ?thesis by (simp add: quickFixFile_def)
  qed
qed

lemma Run_build_firstCheck:
  assumes "Run_build e s pr = Some (r, s', tr)" and "filter isCheck pr = []"
  shows "firstCheck tr = Some (File s)"
proof -
  from quickFixFile_first [of e s] obtain fr s1 rest where
    q: "quickFixFile e s = (fr, s1, Check (File s) # rest)" by blast
  from BuildRunFile_trace [of e s1] obtain err where b: "BuildRunFile e s1 = (err, [Build (File s1)])"
    by (cases "BuildRunFile e s1") auto
  from assms(1) q b have "tr = pr @ (Check (File s) # rest) @ [Build (File s1)]"
    by (auto simp add: Run_build_def split: option.splits error.splits if_splits)
  with assms(2) show ?thesis by (simp add: firstCheck_append)
qed

lemma clearQuickFix_names: "imp \<in> set (Imports (File (clearQuickFix s))) \<Longrightarrow> Name imp = None"
  by (auto simp add: clearQuickFix_def)

lemma AddImport_names:
  "(\<And>imp. imp \<in> set (Imports f) \<Longrightarrow> Name imp = None) \<Longrightarrow>
   imp \<in> set (Imports (AddImport e p f)) \<Longrightarrow> Name imp = None"
  by (auto simp add: AddImport_def split: if_splits)

lemma clearQuickFix_idem [simp]: "clearQuickFix (clearQuickFix s) = clearQuickFix s"
  by (simp add: clearQuickFix_def)

section \<open>The start of a cycle\<close>

text \<open>
  C8. \<open>clearQuickFix\<close> leaves no import spec with a name and keeps the paths; \<open>Run\<close>
  starts with it, so a cycle does not depend on the names the session came with; and in
  every cycle that returns, the file of the first call of the checker has no named
  import spec: a spec that auto-fix made anonymous in the cycle before is explicit again
  before anything is checked.
\<close>

theorem aliases_cleared_first:
  "(\<forall>imp\<in>set (Imports (File (clearQuickFix s))). Name imp = None)
   \<and> map Path (Imports (File (clearQuickFix s))) = map Path (Imports (File s))
   \<and> Run e inp s = Run e inp (clearQuickFix s)
   \<and> (\<forall>r s' tr f. Run e inp s = Some (r, s', tr) \<and> firstCheck tr = Some f \<longrightarrow>
         (\<forall>imp\<in>set (Imports f). Name imp = None))"
proof (intro conjI allI impI)
  show "\<forall>imp\<in>set (Imports (File (clearQuickFix s))). Name imp = None"
    by (auto dest: clearQuickFix_names)
  show "map Path (Imports (File (clearQuickFix s))) = map Path (Imports (File s))"
    by (simp add: clearQuickFix_def comp_def)
  show "Run e inp s = Run e inp (clearQuickFix s)"
    by (simp add: Run_def)
next
  fix r s' tr f
  assume a: "Run e inp s = Some (r, s', tr) \<and> firstCheck tr = Some f"
  let ?c = "clearQuickFix s"
  have names: "\<And>imp. imp \<in> set (Imports (File ?c)) \<Longrightarrow> Name imp = None"
    by (rule clearQuickFix_names)
  have "\<exists>s1 pr. Run e inp s = Run_build e s1 pr \<and> filter isCheck pr = []
          \<and> (\<forall>imp\<in>set (Imports (File s1)). Name imp = None)"
  proof (cases "prefix '':import '' inp")
    case True
    from Run_import [OF True, of e s] names show ?thesis
      by (intro exI conjI) (assumption, simp, auto dest: AddImport_names [rotated])
  next
    case ni: False
    show ?thesis
    proof (cases "stringsTrimSpace e inp = '':print''")
      case True
      have "filter isCheck (snd (handlePrint e inp ?c)) = []"
        by (simp add: handlePrint_def split: sum.split)
      with Run_print [OF ni True, of s] names show ?thesis by blast
    next
      case False
      with ni have nc: "\<not> isCommand e inp" by (simp add: isCommand_def)
      show ?thesis
      proof (cases "parseExpr e inp")
        case (Inr x)
        from Run_expr [OF nc Inr, of s] names show ?thesis
          by (intro exI conjI) (assumption, simp, simp)
      next
        case (Inl err)
        note pe = this
        show ?thesis
        proof (cases "parseFile e (wrapStmt inp)")
          case (Inr stmts)
          from Run_stmt [OF nc pe Inr, of s] names show ?thesis
            by (intro exI conjI) (assumption, simp, simp)
        next
          case (Inl err')
          show ?thesis
          proof (cases "isErrorList err'")
            case True
            from Run_continue [OF nc pe Inl True, of s] a show ?thesis by auto
          next
            case False
            from Run_other [OF nc pe Inl False, of s] names show ?thesis
              by (intro exI [of _ "clearQuickFix s"] exI [of _ "[]"]) auto
          qed
        qed
      qed
    qed
  qed
  then obtain s1 pr where r: "Run e inp s = Run_build e s1 pr" and p: "filter isCheck pr = []"
    and n: "\<forall>imp\<in>set (Imports (File s1)). Name imp = None" by blast
  from a r have "Run_build e s1 pr = Some (r, s', tr)" by simp
  from Run_build_firstCheck [OF this p] a have "f = File s1" by simp
  with n show "\<forall>imp\<in>set (Imports f). Name imp = None" by simp
qed

theorem aliases_cleared_first_witness:
  "map Name (Imports (File markedSession)) = [None, Some ''_'']
   \<and> (\<exists>r s' tr f. Run (toyEnv None) ''1'' markedSession = Some (r, s', tr)
         \<and> firstCheck tr = Some f \<and> list_all (\<lambda>imp. Name imp = None) (Imports f)
         \<and> map Path (Imports f) = [toyQuote ''fmt'', toyQuote ''os''])"
proof -
  have 1: "map Name (Imports (File markedSession)) = [None, Some ''_'']"
    by (simp add: markedSession_def)
  have "Run (toyEnv None) ''1'' markedSession \<noteq> None" by code_simp
  then obtain r s' tr where run: "Run (toyEnv None) ''1'' markedSession = Some (r, s', tr)"
    by auto
  have "map_option (map Path \<circ> Imports) (firstCheck (eventsOf (Run (toyEnv None) ''1'' markedSession)))
          = Some [toyQuote ''fmt'', toyQuote ''os'']"
    by code_simp
  with run obtain f where f: "firstCheck tr = Some f"
    and p: "map Path (Imports f) = [toyQuote ''fmt'', toyQuote ''os'']"
    by (auto simp add: eventsOf_def)
  from aliases_cleared_first [of markedSession "toyEnv None" "''1''"] run f
  have "\<forall>imp\<in>set (Imports f). Name imp = None" by blast
  then have l: "list_all (\<lambda>imp. Name imp = None) (Imports f)" by (simp add: list_all_iff)
  from 1 run f p l show ?thesis
    by (intro conjI exI [of _ r] exI [of _ s'] exI [of _ tr] exI [of _ f]) simp_all
qed

section \<open>Injection\<close>

text \<open>
  C9. For an input that is not a command and that \<open>parser.ParseExpr\<close> accepts as the
  expression \<open>x\<close>: \<open>injectExpr\<close> appends the one statement \<open>p(x)\<close>, the call of the helper
  on the parsed expression; \<open>Run\<close> goes on to auto-fix and build with exactly that
  statement appended; and the statement parser is not consulted, the cycle being the same
  whatever it would answer.
\<close>

theorem expression_wrapped:
  assumes "\<not> isCommand e inp" and "parseExpr e inp = Inr x"
  shows "injectExpr e inp s =
           (None, s\<lparr>File := (File s)\<lparr>Body := mainBody s @ [ExprStmt (CallExpr (Ident ''p'') [x])]\<rparr>\<rparr>)
    \<and> Run e inp s =
        Run_build e
          ((clearQuickFix s)\<lparr>File := (File (clearQuickFix s))\<lparr>Body :=
             mainBody s @ [ExprStmt (CallExpr (Ident ''p'') [x])]\<rparr>\<rparr>) []
    \<and> (\<forall>pf. Run (e\<lparr>parseFile := pf\<rparr>) inp s = Run e inp s)"
proof (intro conjI allI)
  show "injectExpr e inp s =
           (None, s\<lparr>File := (File s)\<lparr>Body := mainBody s @ [ExprStmt (CallExpr (Ident ''p'') [x])]\<rparr>\<rparr>)"
    using assms(2) by (simp add: injectExpr_def appendStatements_def)
  show "Run e inp s =
        Run_build e
          ((clearQuickFix s)\<lparr>File := (File (clearQuickFix s))\<lparr>Body :=
             mainBody s @ [ExprStmt (CallExpr (Ident ''p'') [x])]\<rparr>\<rparr>) []"
    using Run_expr [OF assms, of s] by (simp add: appendStatements_def)
next
  fix pf
  let ?e = "e\<lparr>parseFile := pf\<rparr>"
  have "\<not> isCommand ?e inp" using assms(1) by (simp add: isCommand_def)
  moreover have "parseExpr ?e inp = Inr x" using assms(2) by simp
  ultimately have "Run ?e inp s =
      Run_build ?e (appendStatements [ExprStmt (CallExpr (Ident ''p'') [x])] (clearQuickFix s)) []"
    by (rule Run_expr)
  also have "\<dots> = Run_build e (appendStatements [ExprStmt (CallExpr (Ident ''p'') [x])] (clearQuickFix s)) []"
    by (rule Run_build_env) simp_all
  also have "\<dots> = Run e inp s" using Run_expr [OF assms, of s] by simp
  finally show "Run ?e inp s = Run e inp s" .
qed

theorem expression_wrapped_witness:
  "\<not> isCommand (toyEnv None) ''1'' \<and> parseExpr (toyEnv None) ''1'' = Inr (OtherExpr ''1'')
   \<and> mainBody toySession = []
   \<and> map_option (mainBody \<circ> fst \<circ> snd) (Run (toyEnv None) ''1'' toySession)
       = Some [ExprStmt (CallExpr (Ident ''p'') [OtherExpr ''1''])]
   \<and> Run ((toyEnv None)\<lparr>parseFile := (\<lambda>src. Inr [OtherStmt ''1''])\<rparr>) ''1'' toySession
       = Run (toyEnv None) ''1'' toySession"
proof -
  have a: "\<not> isCommand (toyEnv None) ''1''"
    by (simp add: isCommand_def toyEnv_def toyTrimSpace_def asciiSpace_def)
  have b: "parseExpr (toyEnv None) ''1'' = Inr (OtherExpr ''1'')"
    by (simp add: toyEnv_def toyParseExpr_def)
  have c: "map_option (mainBody \<circ> fst \<circ> snd) (Run (toyEnv None) ''1'' toySession)
       = Some [ExprStmt (CallExpr (Ident ''p'') [OtherExpr ''1''])]"
    by code_simp
  have d: "mainBody toySession = []" by (simp add: toySession_def initialFile_def)
  from expression_wrapped [OF a b, of toySession] a b c d show ?thesis by simp
qed

text \<open>
  C4, as the code has it. For an input that is not a command and that neither parser
  accepts, the injector appends nothing. When the error of the statement parser is a
  \<open>scanner.ErrorList\<close>, \<open>Run\<close> returns \<open>ErrContinue\<close> at once, without check or build,
  with body and checkpoint as they were. When it is an error of another type, \<open>Run\<close> does
  not return it: the cycle goes on to auto-fix and build on the program without the input.
\<close>

theorem parse_failure:
  assumes "\<not> isCommand e inp" and "parseExpr e inp = Inl err1"
    and "parseFile e (wrapStmt inp) = Inl err2"
  shows "injectExpr e inp s = (Some err1, s) \<and> injectStmt e inp s = (Some err2, s)
    \<and> mainBody (clearQuickFix s) = mainBody s
    \<and> storedBodyLength (clearQuickFix s) = storedBodyLength s
    \<and> (isErrorList err2 \<longrightarrow> Run e inp s = Some (Some ErrContinue, clearQuickFix s, []))
    \<and> (\<not> isErrorList err2 \<longrightarrow> Run e inp s = Run_build e (clearQuickFix s) [])"
  using assms Run_continue [OF assms] Run_other [OF assms]
  by (simp add: injectExpr_def injectStmt_def wrapStmt_def)

theorem parse_failure_witness:
  "Run (toyEnv None) ''if true {'' toySession = Some (Some ErrContinue, toySession, [])
   \<and> Run brokenEnv '')'' toySession = Run_build brokenEnv toySession []"
proof -
  have c: "clearQuickFix toySession = toySession"
    by (simp add: clearQuickFix_def toySession_def initialFile_def)
  have a: "\<not> isCommand (toyEnv None) ''if true {''"
    by (simp add: isCommand_def toyEnv_def toyTrimSpace_def asciiSpace_def)
  have b: "parseExpr (toyEnv None) ''if true {'' = Inl (ScannerErrorList ''expected operand'')"
    by (simp add: toyEnv_def toyParseExpr_def)
  have d: "parseFile (toyEnv None) (wrapStmt ''if true {'') = Inl (ScannerErrorList ''expected }, found EOF'')"
    by (simp add: toyEnv_def toyParseFile_def wrapStmt_def)
  have a': "\<not> isCommand brokenEnv '')''"
    by (simp add: isCommand_def brokenEnv_def toyEnv_def toyTrimSpace_def asciiSpace_def)
  have b': "parseExpr brokenEnv '')'' = Inl (ScannerErrorList ''expected operand'')"
    by (simp add: brokenEnv_def toyEnv_def toyParseExpr_def)
  have d': "parseFile brokenEnv (wrapStmt '')'') = Inl (OtherError ''read error'')"
    by (simp add: brokenEnv_def)
  from parse_failure [OF a b d, of toySession] parse_failure [OF a' b' d', of toySession] c
  show ?thesis by simp
qed

text \<open>
  C4 as stated fails for a genuine syntax error. The parser reports the malformed \<open>)\<close>
  as a \<open>scanner.ErrorList\<close>, as it does the unfinished \<open>if true {\<close>, and \<open>Run\<close> answers
  both with \<open>ErrContinue\<close>. And when the parser fails with an error of another type,
  \<open>Run\<close> builds and returns \<open>nil\<close>; no error reaches the caller.
\<close>

theorem syntax_error_counterexample:
  "\<not> isCommand (toyEnv None) '')''
   \<and> parseExpr (toyEnv None) '')'' = Inl (ScannerErrorList ''expected operand'')
   \<and> parseFile (toyEnv None) (wrapStmt '')'') = Inl (ScannerErrorList ''expected statement'')
   \<and> Run (toyEnv None) '')'' toySession = Some (Some ErrContinue, toySession, [])
   \<and> Run (toyEnv None) ''if true {'' toySession = Some (Some ErrContinue, toySession, [])
   \<and> \<not> isCommand brokenEnv '')''
   \<and> parseExpr brokenEnv '')'' = Inl (ScannerErrorList ''expected operand'')
   \<and> parseFile brokenEnv (wrapStmt '')'') = Inl (OtherError ''read error'')
   \<and> map_option fst (Run brokenEnv '')'' toySession) = Some None
   \<and> eventsOf (Run brokenEnv '')'' toySession) = [Check (File toySession), Build (File toySession)]"
proof -
  have "\<not> isCommand (toyEnv None) '')''" "\<not> isCommand brokenEnv '')''"
    by (simp_all add: isCommand_def brokenEnv_def toyEnv_def toyTrimSpace_def asciiSpace_def)
  moreover have "parseExpr (toyEnv None) '')'' = Inl (ScannerErrorList ''expected operand'')"
    "parseExpr brokenEnv '')'' = Inl (ScannerErrorList ''expected operand'')"
    by (simp_all add: brokenEnv_def toyEnv_def toyParseExpr_def)
  moreover have "parseFile (toyEnv None) (wrapStmt '')'') = Inl (ScannerErrorList ''expected statement'')"
    "parseFile brokenEnv (wrapStmt '')'') = Inl (OtherError ''read error'')"
    by (simp_all add: brokenEnv_def toyEnv_def toyParseFile_def wrapStmt_def)
  moreover have "Run (toyEnv None) '')'' toySession = Some (Some ErrContinue, toySession, [])"
    "Run (toyEnv None) ''if true {'' toySession = Some (Some ErrContinue, toySession, [])"
    "map_option fst (Run brokenEnv '')'' toySession) = Some None"
    "eventsOf (Run brokenEnv '')'' toySession) = [Check (File toySession), Build (File toySession)]"
    by code_simp+
  ultimately show ?thesis by simp
qed

section \<open>Commands\<close>




end
